theory Spec2Isabelle
  imports Main "HOL-Library.Char_ord" "HOL-Library.List_Lexorder" "HOL-Library.AList"
begin

section \<open>Strings and paths\<close>

text \<open>
  File names and paths are Python \<open>str\<close> values. They are modelled as HOL strings, read
  as sequences of code points below 256; \<open>list.sort()\<close> compares them code point by code
  point, a proper prefix first, which is the lexicographic order of \<open>List_Lexorder\<close>
  over the order of \<open>Char_ord\<close>.
\<close>

type_synonym path = string

text \<open>\<open>str.lower()\<close> on the code points below 256: the letters A-Z and the capital
  letters of the Latin-1 block (all of 192..222 but the multiplication sign 215) move up
  by 32, every other code point stays.\<close>

definition lower_char :: "char \<Rightarrow> char" where
  "lower_char c =
     (let n = (of_char c :: nat)
      in if (65 \<le> n \<and> n \<le> 90) \<or> (192 \<le> n \<and> n \<le> 222 \<and> n \<noteq> 215)
         then char_of (n + 32) else c)"

definition lower :: "string \<Rightarrow> string" where
  "lower s = map lower_char s"

text \<open>\<open>s.endswith(suffix)\<close> for one suffix, and for a tuple of suffixes (true when one
  of them matches, false for the empty tuple).\<close>

definition endswith1 :: "string \<Rightarrow> string \<Rightarrow> bool" where
  "endswith1 s suffix =
     (length suffix \<le> length s \<and> drop (length s - length suffix) s = suffix)"

definition endswith :: "string \<Rightarrow> string list \<Rightarrow> bool" where
  "endswith s suffixes = list_ex (endswith1 s) suffixes"

text \<open>\<open>str(n)\<close> for an integer: decimal digits, no padding, a minus sign when negative.\<close>

definition digit_char :: "nat \<Rightarrow> char" where
  "digit_char d = char_of (48 + d)"

function str_nat :: "nat \<Rightarrow> string" where
  "str_nat n = (if n < 10 then [digit_char n] else str_nat (n div 10) @ [digit_char (n mod 10)])"
  by pat_completeness auto
termination
  by (relation "measure (\<lambda>n. n)") auto

declare str_nat.simps [simp del]

definition str :: "int \<Rightarrow> string" where
  "str i = (if i < 0 then CHR ''-'' # str_nat (nat (- i)) else str_nat (nat i))"

text \<open>The functions of \<open>os.path\<close> that work on the text of a path alone, as \<open>posixpath\<close>
  defines them with the separator \<open>/\<close>.\<close>

definition all_sep :: "string \<Rightarrow> bool" where
  "all_sep s = (filter (\<lambda>c. c \<noteq> CHR ''/'') s = [])"

definition rstrip_sep :: "string \<Rightarrow> string" where
  "rstrip_sep s = rev (dropWhile (\<lambda>c. c = CHR ''/'') (rev s))"

text \<open>\<open>os.path.split\<close>: the tail is what follows the last separator; the head is the
  rest, with its trailing separators removed unless it consists of separators only.\<close>

definition os_path_split :: "path \<Rightarrow> path \<times> path" where
  "os_path_split p =
     (let head = rev (dropWhile (\<lambda>c. c \<noteq> CHR ''/'') (rev p));
          tail = rev (takeWhile (\<lambda>c. c \<noteq> CHR ''/'') (rev p))
      in (if head \<noteq> [] \<and> \<not> all_sep head then rstrip_sep head else head, tail))"

definition os_path_dirname :: "path \<Rightarrow> path" where
  "os_path_dirname p = fst (os_path_split p)"

definition os_path_basename :: "path \<Rightarrow> path" where
  "os_path_basename p = snd (os_path_split p)"

definition os_path_join :: "path \<Rightarrow> path \<Rightarrow> path" where
  "os_path_join a b =
     (if take 1 b = ''/'' then b
      else if a = [] \<or> last a = CHR ''/'' then a @ b
      else a @ ''/'' @ b)"

section \<open>Images\<close>

text \<open>
  A Pillow image is modelled by its mode string, its size, whether its \<open>info\<close> dictionary
  has the key \<open>transparency\<close>, and for every coordinate the colour of the pixel as
  conversion to RGB renders it together with the opacity of the pixel (the value of the
  alpha band in the modes that have one, the palette transparency in mode P, 255 where
  there is none). Only the coordinates inside the size are meaningful.
\<close>

type_synonym rgb = "nat \<times> nat \<times> nat"

record image =
  mode :: string
  size_wh :: "nat \<times> nat"
  info_transparency :: bool
  pixels :: "nat \<times> nat \<Rightarrow> rgb \<times> nat"

definition inside :: "image \<Rightarrow> nat \<times> nat \<Rightarrow> bool" where
  "inside im xy = (fst xy < fst (size_wh im) \<and> snd xy < snd (size_wh im))"

text \<open>\<open>Image.new(mode, size, color)\<close>: a fresh image filled with one opaque colour.\<close>

definition Image_new :: "string \<Rightarrow> nat \<times> nat \<Rightarrow> rgb \<Rightarrow> image" where
  "Image_new m sz color =
     \<lparr>mode = m, size_wh = sz, info_transparency = False, pixels = (\<lambda>xy. (color, 255))\<rparr>"

text \<open>\<open>im.split()[3]\<close> of an image with four bands (RGBA): the alpha band as an image of
  mode L, whose grey value at a coordinate is the opacity of \<open>im\<close> there.\<close>

definition Image_split_3 :: "image \<Rightarrow> image" where
  "Image_split_3 im =
     \<lparr>mode = ''L'', size_wh = size_wh im, info_transparency = False,
      pixels = (\<lambda>xy. let a = snd (pixels im xy) in ((a, a, a), 255))\<rparr>"

text \<open>Pillow blends one channel under a mask value \<open>m\<close> as
  \<open>DIV255(old * (255 - m) + new * m)\<close>, where \<open>DIV255(a)\<close> is
  \<open>t = a + 128; ((t >> 8) + t) >> 8\<close>.\<close>

definition DIV255 :: "nat \<Rightarrow> nat" where
  "DIV255 a = (let t = a + 128 in ((t div 256) + t) div 256)"

definition BLEND8 :: "nat \<Rightarrow> nat \<Rightarrow> nat \<Rightarrow> nat" where
  "BLEND8 m old new = DIV255 (old * (255 - m) + new * m)"

definition blend_rgb :: "nat \<Rightarrow> rgb \<Rightarrow> rgb \<Rightarrow> rgb" where
  "blend_rgb m old new =
     (case (old, new) of
        ((r0, g0, b0), (r1, g1, b1)) \<Rightarrow> (BLEND8 m r0 r1, BLEND8 m g0 g1, BLEND8 m b0 b1))"

text \<open>
  \<open>bg.paste(im)\<close> and \<open>bg.paste(im, mask=m)\<close> at the default box: the region of \<open>bg\<close> that
  \<open>im\<close> covers from the upper left corner. Without a mask every pixel of the region is
  replaced by the colour of \<open>im\<close> there and the alpha of \<open>im\<close> is ignored; with a mask the
  colour of \<open>im\<close> is blended into the pixel of \<open>bg\<close> under the mask's grey value. The mode
  and the opacity of \<open>bg\<close> stay. Python updates \<open>bg\<close> in place; the model returns it.
\<close>

definition Image_paste :: "image \<Rightarrow> image \<Rightarrow> image option \<Rightarrow> image" where
  "Image_paste bg im msk =
     bg\<lparr>pixels := (\<lambda>xy.
        if inside im xy then
          (case msk of
             None \<Rightarrow> (fst (pixels im xy), snd (pixels bg xy))
           | Some m \<Rightarrow>
               (blend_rgb (fst (fst (pixels m xy))) (fst (pixels bg xy)) (fst (pixels im xy)),
                snd (pixels bg xy)))
        else pixels bg xy)\<rparr>"

text \<open>\<open>im.convert("RGB")\<close>: the same picture in mode RGB, which has no alpha band.\<close>

definition Image_convert_RGB :: "image \<Rightarrow> image" where
  "Image_convert_RGB im = im\<lparr>mode := ''RGB'', pixels := (\<lambda>xy. (fst (pixels im xy), 255))\<rparr>"

section \<open>The process environment and the file system\<close>

text \<open>Exceptions are modelled by their class; their messages are not.\<close>

datatype error =
    FileNotFoundError
  | FileExistsError
  | NotADirectoryError
  | IsADirectoryError
  | RuntimeError
  | AttributeError
  | IndexError
  | UnidentifiedImageError
  | PDFInfoNotInstalledError
  | PDFPageCountError

text \<open>A regular file holds an image in some format, a PDF document (modelled by the list
  of its page pictures), or anything else.\<close>

datatype content = Image_file string image | Pdf_file "image list" | Other_file

datatype node = Dir | File content

text \<open>
  The state a call runs in: how \<open>os.path.abspath\<close> resolves a path (it depends on the
  working directory of the process), whether the module globals \<open>Image\<close> and
  \<open>convert_from_path\<close> are bound (they are \<open>None\<close> when the import failed), whether the
  rasterizer finds Poppler under a given \<open>poppler_path\<close>, and the file system: what each
  absolute path names, in the order in which the operating system lists the entries.
  A path handed to the operating system is looked up as it is; where the source does not
  call \<open>abspath\<close> itself (the paths of file-list mode), the caller passes absolute paths,
  as the file dialog of the GUI does.
\<close>

record os_state =
  abspath_of :: "path \<Rightarrow> path"
  Image_bound :: bool
  convert_from_path_bound :: bool
  poppler_found :: "path option \<Rightarrow> bool"
  nodes :: "(path \<times> node) list"

type_synonym 'a result = "(error + 'a) \<times> os_state"

definition os_path_abspath :: "os_state \<Rightarrow> path \<Rightarrow> path" where
  "os_path_abspath s p = abspath_of s p"

definition lookup :: "os_state \<Rightarrow> path \<Rightarrow> node option" where
  "lookup s p = map_of (nodes s) p"

definition os_path_exists :: "os_state \<Rightarrow> path \<Rightarrow> bool" where
  "os_path_exists s p = (case lookup s p of Some n \<Rightarrow> True | None \<Rightarrow> False)"

definition os_path_isdir :: "os_state \<Rightarrow> path \<Rightarrow> bool" where
  "os_path_isdir s p = (case lookup s p of Some Dir \<Rightarrow> True | _ \<Rightarrow> False)"

definition os_path_isfile :: "os_state \<Rightarrow> path \<Rightarrow> bool" where
  "os_path_isfile s p = (case lookup s p of Some (File c) \<Rightarrow> True | _ \<Rightarrow> False)"

text \<open>\<open>os.listdir(d)\<close>: the names of the entries directly inside the directory, in the
  order of the file system.\<close>

definition os_listdir :: "os_state \<Rightarrow> path \<Rightarrow> error + string list" where
  "os_listdir s d =
     (case lookup s d of
        None \<Rightarrow> Inl FileNotFoundError
      | Some (File c) \<Rightarrow> Inl NotADirectoryError
      | Some Dir \<Rightarrow>
          Inr (map os_path_basename
                 (filter (\<lambda>p. os_path_dirname p = d \<and> os_path_basename p \<noteq> [])
                    (map fst (nodes s)))))"

definition put :: "os_state \<Rightarrow> path \<Rightarrow> node \<Rightarrow> os_state" where
  "put s p n = s\<lparr>nodes := AList.update p n (nodes s)\<rparr>"

text \<open>\<open>os.mkdir(p)\<close>: the path must not exist and its parent must be a directory.\<close>

definition os_mkdir :: "os_state \<Rightarrow> path \<Rightarrow> unit result" where
  "os_mkdir s p =
     (if os_path_exists s p then (Inl FileExistsError, s)
      else if os_path_isdir s (os_path_dirname p) then (Inr (), put s p Dir)
      else if os_path_exists s (os_path_dirname p) then (Inl NotADirectoryError, s)
      else (Inl FileNotFoundError, s))"

text \<open>Opening a path for writing and storing \<open>c\<close>: the path must not be a directory and
  its parent must be one; an existing file is replaced.\<close>

definition write_file :: "os_state \<Rightarrow> path \<Rightarrow> content \<Rightarrow> unit result" where
  "write_file s p c =
     (if os_path_isdir s p then (Inl IsADirectoryError, s)
      else if os_path_isdir s (os_path_dirname p) then (Inr (), put s p (File c))
      else if os_path_exists s (os_path_dirname p) then (Inl NotADirectoryError, s)
      else (Inl FileNotFoundError, s))"

text \<open>
  \<open>os.makedirs(name, exist_ok=True)\<close> for a path without a trailing separator: the missing
  parent is created first, by the same function; then the directory itself, and
  an error of \<open>mkdir\<close> is dropped when the directory is there.
\<close>

function os_makedirs :: "os_state \<Rightarrow> path \<Rightarrow> unit result" where
  "os_makedirs s name =
     (let head = os_path_dirname name; tail = os_path_basename name;
          r = (if head \<noteq> [] \<and> tail \<noteq> [] \<and> \<not> os_path_exists s head
               then (case os_makedirs s head of
                       (Inl FileExistsError, s') \<Rightarrow> (Inr (), s')
                     | r' \<Rightarrow> r')
               else (Inr (), s))
      in case r of
           (Inl e, s1) \<Rightarrow> (Inl e, s1)
         | (Inr u, s1) \<Rightarrow>
             (case os_mkdir s1 name of
                (Inl e, s2) \<Rightarrow> if os_path_isdir s2 name then (Inr (), s2) else (Inl e, s2)
              | (Inr v, s2) \<Rightarrow> (Inr (), s2)))"
  by pat_completeness auto
termination
proof (relation "measure (\<lambda>(s, name). length name)")
  show "wf (measure (\<lambda>(s, name). length name))"
    by simp
next
  fix s :: os_state and name head tail :: path
  assume h: "head = os_path_dirname name" and t: "tail = os_path_basename name"
    and c: "head \<noteq> [] \<and> tail \<noteq> [] \<and> \<not> os_path_exists s head"
  let ?h0 = "dropWhile (\<lambda>c. c \<noteq> CHR ''/'') (rev name)"
  let ?t0 = "takeWhile (\<lambda>c. c \<noteq> CHR ''/'') (rev name)"
  have "length ?t0 + length ?h0 = length name"
    using takeWhile_dropWhile_id [of "\<lambda>c. c \<noteq> CHR ''/''" "rev name"]
    by (metis length_append length_rev)
  moreover have "0 < length ?t0"
    using c t by (simp add: os_path_basename_def os_path_split_def Let_def)
  ultimately have less: "length ?h0 < length name"
    by linarith
  have "length (rstrip_sep (rev ?h0)) \<le> length ?h0"
    by (simp add: rstrip_sep_def length_dropWhile_le)
  moreover have "head = rstrip_sep (rev ?h0) \<or> head = rev ?h0"
    unfolding h os_path_dirname_def os_path_split_def Let_def fst_conv by metis
  ultimately have "length head \<le> length ?h0"
    by auto
  with less have "length head < length name"
    by linarith
  then show "((s, head), (s, name)) \<in> measure (\<lambda>(s, name). length name)"
    by simp
qed

declare os_makedirs.simps [simp del]

section \<open>The libraries\<close>

text \<open>
  \<open>Image.open(path)\<close>: the image a file decodes to. The call fails with
  \<open>AttributeError\<close> when \<open>Image\<close> is \<open>None\<close>, with \<open>FileNotFoundError\<close> when nothing is at
  the path, with \<open>IsADirectoryError\<close> when a directory is (\<open>PermissionError\<close> on Windows;
  neither is a \<open>FileNotFoundError\<close>), and with \<open>UnidentifiedImageError\<close> when the file
  is no image. It reads only.
\<close>

definition Image_open :: "os_state \<Rightarrow> path \<Rightarrow> error + image" where
  "Image_open s p =
     (if \<not> Image_bound s then Inl AttributeError
      else case lookup s p of
             None \<Rightarrow> Inl FileNotFoundError
           | Some Dir \<Rightarrow> Inl IsADirectoryError
           | Some (File (Image_file fmt im)) \<Rightarrow> Inr im
           | Some (File c) \<Rightarrow> Inl UnidentifiedImageError)"

text \<open>\<open>im.save(path, format)\<close> writes one image in the given format.\<close>

definition Image_save :: "os_state \<Rightarrow> image \<Rightarrow> path \<Rightarrow> string \<Rightarrow> unit result" where
  "Image_save s im p fmt = write_file s p (Image_file fmt im)"

text \<open>\<open>first.save(path, "PDF", resolution=100.0, save_all=True, append_images=rest)\<close>
  writes a PDF document with one page per image, \<open>first\<close> before \<open>rest\<close>. The resolution
  is a tag of the document that leaves the pictures alone; it is not modelled.\<close>

definition Image_save_all_PDF :: "os_state \<Rightarrow> image \<Rightarrow> path \<Rightarrow> image list \<Rightarrow> unit result" where
  "Image_save_all_PDF s first p rest = write_file s p (Pdf_file (first # rest))"

text \<open>\<open>pdf2image.convert_from_path(pdf_path, poppler_path)\<close>: the pictures of the pages of
  a PDF document, in page order. It reads only.\<close>

definition convert_from_path :: "os_state \<Rightarrow> path \<Rightarrow> path option \<Rightarrow> error + image list" where
  "convert_from_path s pdf_path poppler_path =
     (if \<not> poppler_found s poppler_path then Inl PDFInfoNotInstalledError
      else case lookup s pdf_path of
             Some (File (Pdf_file pages)) \<Rightarrow> Inr pages
           | _ \<Rightarrow> Inl PDFPageCountError)"

section \<open>The converters\<close>

text \<open>The loop of \<open>convert_pdf_to_images\<close>: one PNG file per page, named by the counter.
  A failing write ends the call and leaves the files written so far.\<close>

fun convert_pdf_to_images_loop ::
  "os_state \<Rightarrow> path \<Rightarrow> image list \<Rightarrow> int \<Rightarrow> int result" where
  "convert_pdf_to_images_loop s output_dir [] counter = (Inr (counter - 1), s)"
| "convert_pdf_to_images_loop s output_dir (page # pages) counter =
     (let img_name = ''page_'' @ str counter @ ''.png''
      in case Image_save s page (os_path_join output_dir img_name) ''PNG'' of
           (Inl e, s') \<Rightarrow> (Inl e, s')
         | (Inr u, s') \<Rightarrow> convert_pdf_to_images_loop s' output_dir pages (counter + 1))"

definition convert_pdf_to_images :: "os_state \<Rightarrow> path \<Rightarrow> path option \<Rightarrow> path \<Rightarrow> int result" where
  "convert_pdf_to_images s pdf_path poppler_path output_dir =
     (let pdf_path = os_path_abspath s pdf_path;
          output_dir = os_path_abspath s output_dir
      in if \<not> os_path_isfile s pdf_path then (Inl FileNotFoundError, s)
         else case (if \<not> os_path_isdir s output_dir then os_makedirs s output_dir
                    else (Inr (), s)) of
                (Inl e, s1) \<Rightarrow> (Inl e, s1)
              | (Inr u, s1) \<Rightarrow>
                  if \<not> convert_from_path_bound s1 then (Inl RuntimeError, s1)
                  else (case convert_from_path s1 pdf_path poppler_path of
                          Inl e \<Rightarrow> (Inl e, s1)
                        | Inr pages \<Rightarrow> convert_pdf_to_images_loop s1 output_dir pages 1))"

text \<open>Line 58 of the source: the entries whose lower-cased name ends with one of the
  extensions, in the order of the listing.\<close>

definition select_files :: "string list \<Rightarrow> string list \<Rightarrow> string list" where
  "select_files names exts = filter (\<lambda>f. endswith (lower f) exts) names"

text \<open>The loop of \<open>images_to_pdf\<close>: decode each file of the directory and normalize it.\<close>

fun images_to_pdf_loop ::
  "os_state \<Rightarrow> path \<Rightarrow> string list \<Rightarrow> image list \<Rightarrow> error + image list" where
  "images_to_pdf_loop s images_dir [] imgs = Inr imgs"
| "images_to_pdf_loop s images_dir (fname # files) imgs =
     (let path = os_path_join images_dir fname
      in case Image_open s path of
           Inl e \<Rightarrow> Inl e
         | Inr im \<Rightarrow>
             (let im' =
                (if mode im \<in> set [''RGBA'', ''LA'']
                    \<or> (mode im = ''P'' \<and> info_transparency im)
                 then (let bg = Image_new ''RGB'' (size_wh im) (255, 255, 255)
                       in if mode im = ''RGBA''
                          then Image_paste bg im (Some (Image_split_3 im))
                          else Image_paste bg im None)
                 else Image_convert_RGB im)
              in images_to_pdf_loop s images_dir files (imgs @ [im'])))"

definition images_to_pdf :: "os_state \<Rightarrow> path \<Rightarrow> path \<Rightarrow> string list \<Rightarrow> path result" where
  "images_to_pdf s images_dir output_pdf exts =
     (let images_dir = os_path_abspath s images_dir
      in if \<not> os_path_isdir s images_dir then (Inl FileNotFoundError, s)
         else case os_listdir s images_dir of
                Inl e \<Rightarrow> (Inl e, s)
              | Inr names \<Rightarrow>
                 (let files = select_files names exts
                  in if files = [] then (Inl FileNotFoundError, s)
                     else
                      (let files = sort files
                       in case images_to_pdf_loop s images_dir files [] of
                            Inl e \<Rightarrow> (Inl e, s)
                          | Inr imgs \<Rightarrow>
                             (let output_pdf = os_path_abspath s output_pdf;
                                  output_dir = os_path_dirname output_pdf
                              in case (if output_dir \<noteq> [] \<and> \<not> os_path_isdir s output_dir
                                       then os_makedirs s output_dir else (Inr (), s)) of
                                   (Inl e, s1) \<Rightarrow> (Inl e, s1)
                                 | (Inr u, s1) \<Rightarrow>
                                    (case imgs of
                                       [] \<Rightarrow> (Inl IndexError, s1)
                                     | first # rest \<Rightarrow>
                                        (case Image_save_all_PDF s1 first output_pdf rest of
                                           (Inl e, s2) \<Rightarrow> (Inl e, s2)
                                         | (Inr v, s2) \<Rightarrow> (Inr output_pdf, s2)))))))"

text \<open>The loop of \<open>images_to_pdf_from_files\<close>: decode each path of the list and normalize
  the image.\<close>

fun images_to_pdf_from_files_loop ::
  "os_state \<Rightarrow> path list \<Rightarrow> image list \<Rightarrow> error + image list" where
  "images_to_pdf_from_files_loop s [] imgs = Inr imgs"
| "images_to_pdf_from_files_loop s (path # file_paths) imgs =
     (case Image_open s path of
        Inl e \<Rightarrow> Inl e
      | Inr im \<Rightarrow>
          (let im' =
             (if mode im \<in> set [''RGBA'', ''LA'']
                 \<or> (mode im = ''P'' \<and> info_transparency im)
              then (let bg = Image_new ''RGB'' (size_wh im) (255, 255, 255)
                    in if mode im = ''RGBA''
                       then Image_paste bg im (Some (Image_split_3 im))
                       else Image_paste bg im None)
              else Image_convert_RGB im)
           in images_to_pdf_from_files_loop s file_paths (imgs @ [im'])))"

definition images_to_pdf_from_files :: "os_state \<Rightarrow> path list \<Rightarrow> path \<Rightarrow> path result" where
  "images_to_pdf_from_files s file_paths output_pdf =
     (if file_paths = [] then (Inl FileNotFoundError, s)
      else case images_to_pdf_from_files_loop s file_paths [] of
             Inl e \<Rightarrow> (Inl e, s)
           | Inr imgs \<Rightarrow>
              (let output_pdf = os_path_abspath s output_pdf;
                   output_dir = os_path_dirname output_pdf
               in case (if output_dir \<noteq> [] \<and> \<not> os_path_isdir s output_dir
                        then os_makedirs s output_dir else (Inr (), s)) of
                    (Inl e, s1) \<Rightarrow> (Inl e, s1)
                  | (Inr u, s1) \<Rightarrow>
                     (case imgs of
                        [] \<Rightarrow> (Inl IndexError, s1)
                      | first # rest \<Rightarrow>
                         (case Image_save_all_PDF s1 first output_pdf rest of
                            (Inl e, s2) \<Rightarrow> (Inl e, s2)
                          | (Inr v, s2) \<Rightarrow> (Inr output_pdf, s2)))))"

section \<open>Notions used in the statements\<close>

text \<open>The normalization both combiners apply to a decoded image, as one function.\<close>

definition normalize :: "image \<Rightarrow> image" where
  "normalize im =
     (if mode im = ''RGBA''
      then Image_paste (Image_new ''RGB'' (size_wh im) (255, 255, 255)) im
             (Some (Image_split_3 im))
      else if mode im = ''LA'' \<or> (mode im = ''P'' \<and> info_transparency im)
      then Image_paste (Image_new ''RGB'' (size_wh im) (255, 255, 255)) im None
      else Image_convert_RGB im)"

text \<open>Decoding a list of paths in order: all the images, or the first error.\<close>

fun decode_all :: "os_state \<Rightarrow> path list \<Rightarrow> error + image list" where
  "decode_all s [] = Inr []"
| "decode_all s (p # ps) =
     (case Image_open s p of
        Inl e \<Rightarrow> Inl e
      | Inr im \<Rightarrow> (case decode_all s ps of Inl e \<Rightarrow> Inl e | Inr ims \<Rightarrow> Inr (im # ims)))"

text \<open>The entries of a directory that directory mode selects (none when the path is no
  directory), and the full paths it decodes, in its page order.\<close>

definition matching_entries :: "os_state \<Rightarrow> path \<Rightarrow> string list \<Rightarrow> string list" where
  "matching_entries s images_dir exts =
     (case os_listdir s (os_path_abspath s images_dir) of
        Inl e \<Rightarrow> []
      | Inr names \<Rightarrow> select_files names exts)"

definition sorted_paths :: "os_state \<Rightarrow> path \<Rightarrow> string list \<Rightarrow> path list" where
  "sorted_paths s images_dir exts =
     map (os_path_join (os_path_abspath s images_dir)) (sort (matching_entries s images_dir exts))"

text \<open>A file can be written at \<open>p\<close>: \<open>p\<close> is no directory, and its parent is a directory
  or \<open>os.makedirs\<close> can create it.\<close>

definition can_write :: "os_state \<Rightarrow> path \<Rightarrow> bool" where
  "can_write s p =
     (\<not> os_path_isdir s p \<and>
      (os_path_isdir s (os_path_dirname p) \<or>
       (os_path_dirname p \<noteq> [] \<and> os_path_dirname p \<noteq> p \<and>
        fst (os_makedirs s (os_path_dirname p)) = Inr ())))"

text \<open>The state \<open>s'\<close> is \<open>s\<close> with new directories at paths of length at most \<open>n\<close>: the
  environment is the same, and every path names what it named or was free and is now a
  directory.\<close>

definition extends_by_dirs :: "os_state \<Rightarrow> os_state \<Rightarrow> nat \<Rightarrow> bool" where
  "extends_by_dirs s s' n =
     (abspath_of s' = abspath_of s \<and> Image_bound s' = Image_bound s \<and>
      convert_from_path_bound s' = convert_from_path_bound s \<and>
      poppler_found s' = poppler_found s \<and>
      (\<forall>q. lookup s' q = lookup s q \<or>
           (lookup s q = None \<and> lookup s' q = Some Dir \<and> length q \<le> n)))"

text \<open>The path of the file that \<open>convert_pdf_to_images\<close> writes for the counter value
  \<open>n\<close>.\<close>

definition page_path :: "path \<Rightarrow> int \<Rightarrow> path" where
  "page_path output_dir n = os_path_join output_dir (''page_'' @ str n @ ''.png'')"

text \<open>A path as \<open>os.path.abspath\<close> returns it has no trailing separator, unless it
  consists of separators only (the root).\<close>

definition no_trailing_sep :: "path \<Rightarrow> bool" where
  "no_trailing_sep d = (d = [] \<or> last d \<noteq> CHR ''/'' \<or> all_sep d)"

text \<open>A file name ends with one of the extensions when case is ignored on both sides.\<close>

definition ci_endswith :: "string \<Rightarrow> string list \<Rightarrow> bool" where
  "ci_endswith f exts = list_ex (\<lambda>e. endswith1 (lower f) (lower e)) exts"

text \<open>The number a string of decimal digits denotes, read from the left.\<close>

fun digits_value :: "nat \<Rightarrow> string \<Rightarrow> nat" where
  "digits_value acc [] = acc"
| "digits_value acc (c # cs) = digits_value (10 * acc + (of_char c - 48)) cs"

section \<open>Sample inputs\<close>

definition grey_transparent :: image where
  "grey_transparent =
     \<lparr>mode = ''LA'', size_wh = (1, 1), info_transparency = False,
      pixels = (\<lambda>xy. ((0, 0, 0), 0))\<rparr>"

definition colour_transparent :: image where
  "colour_transparent =
     \<lparr>mode = ''RGBA'', size_wh = (1, 1), info_transparency = False,
      pixels = (\<lambda>xy. ((10, 20, 30), 0))\<rparr>"

definition plain :: image where
  "plain =
     \<lparr>mode = ''L'', size_wh = (2, 1), info_transparency = False,
      pixels = (\<lambda>xy. ((7, 7, 7), 255))\<rparr>"

definition home :: os_state where
  "home =
     \<lparr>abspath_of = (\<lambda>p. if take 1 p = ''/'' then p else ''/home/'' @ p),
      Image_bound = True, convert_from_path_bound = True, poppler_found = (\<lambda>p. True),
      nodes =
        [(''/'', Dir), (''/home'', Dir), (''/home/in'', Dir),
         (''/home/in/b.PNG'', File (Image_file ''PNG'' plain)),
         (''/home/in/a.png'', File (Image_file ''PNG'' colour_transparent)),
         (''/home/in/notes.txt'', File Other_file),
         (''/home/in/sub.jpg'', Dir),
         (''/home/grey.png'', File (Image_file ''PNG'' grey_transparent)),
         (''/home/doc.pdf'', File (Pdf_file [plain, colour_transparent]))]\<rparr>"

section \<open>Lemmas on the model\<close>

lemma images_to_pdf_loop_decode_all:
  "images_to_pdf_loop s d files imgs =
     (case decode_all s (map (os_path_join d) files) of
        Inl e \<Rightarrow> Inl e
      | Inr ims \<Rightarrow> Inr (imgs @ map normalize ims))"
proof (induction files arbitrary: imgs)
  case Nil
  show ?case by simp
next
  case (Cons f files)
  show ?case
  proof (cases "Image_open s (os_path_join d f)")
    case (Inl e)
    then show ?thesis by simp
  next
    case (Inr im)
    have step: "images_to_pdf_loop s d (f # files) imgs =
                images_to_pdf_loop s d files (imgs @ [normalize im])"
      using Inr by (simp add: normalize_def Let_def)
    show ?thesis
      unfolding step Cons.IH using Inr by (simp split: sum.splits)
  qed
qed

lemma images_to_pdf_from_files_loop_decode_all:
  "images_to_pdf_from_files_loop s paths imgs =
     (case decode_all s paths of
        Inl e \<Rightarrow> Inl e
      | Inr ims \<Rightarrow> Inr (imgs @ map normalize ims))"
proof (induction paths arbitrary: imgs)
  case Nil
  show ?case by simp
next
  case (Cons p paths)
  show ?case
  proof (cases "Image_open s p")
    case (Inl e)
    then show ?thesis by simp
  next
    case (Inr im)
    have step: "images_to_pdf_from_files_loop s (p # paths) imgs =
                images_to_pdf_from_files_loop s paths (imgs @ [normalize im])"
      using Inr by (simp add: normalize_def Let_def)
    show ?thesis
      unfolding step Cons.IH using Inr by (simp split: sum.splits)
  qed
qed

lemma decode_all_length: "decode_all s ps = Inr ims \<Longrightarrow> length ims = length ps"
  by (induction ps arbitrary: ims) (auto split: sum.splits)

lemma decode_all_nth:
  "decode_all s ps = Inr ims \<Longrightarrow> i < length ps \<Longrightarrow> Image_open s (ps ! i) = Inr (ims ! i)"
proof (induction ps arbitrary: ims i)
  case Nil
  then show ?case by simp
next
  case (Cons p ps)
  then show ?case
    by (cases i) (auto split: sum.splits)
qed

lemma decode_all_append_fail:
  "decode_all s pre = Inr ims \<Longrightarrow> Image_open s p = Inl e \<Longrightarrow>
   decode_all s (pre @ p # post) = Inl e"
  by (induction pre arbitrary: ims) (auto split: sum.splits)

lemma os_listdir_isdir: "os_listdir s d = Inr names \<Longrightarrow> os_path_isdir s d"
  by (auto simp: os_listdir_def os_path_isdir_def split: option.splits node.splits)

lemma sort_eq_Nil_iff: "sort xs = [] \<longleftrightarrow> xs = []"
  by (metis length_0_conv length_sort)

lemma images_to_pdf_unfold:
  "images_to_pdf s d out exts =
     (if matching_entries s d exts = [] then (Inl FileNotFoundError, s)
      else images_to_pdf_from_files s (sorted_paths s d exts) out)"
proof (cases "os_listdir s (os_path_abspath s d)")
  case (Inl e)
  then have "\<not> os_path_isdir s (os_path_abspath s d)"
    by (auto simp: os_listdir_def os_path_isdir_def split: option.splits node.splits)
  with Inl show ?thesis
    by (simp add: images_to_pdf_def matching_entries_def)
next
  case (Inr names)
  then have dir: "os_path_isdir s (os_path_abspath s d)"
    by (rule os_listdir_isdir)
  have m: "matching_entries s d exts = select_files names exts"
    using Inr by (simp add: matching_entries_def)
  show ?thesis
  proof (cases "select_files names exts = []")
    case True
    with Inr dir m show ?thesis
      by (simp add: images_to_pdf_def)
  next
    case False
    then have ne: "sorted_paths s d exts \<noteq> []"
      using m by (simp add: sorted_paths_def sort_eq_Nil_iff)
    show ?thesis
      using Inr dir m False ne
      by (simp add: images_to_pdf_def images_to_pdf_from_files_def sorted_paths_def
          images_to_pdf_loop_decode_all images_to_pdf_from_files_loop_decode_all
          sort_eq_Nil_iff)
  qed
qed

lemma decode_all_fails_at:
  "p \<in> set ps \<Longrightarrow> Image_open s p = Inl e0 \<Longrightarrow>
   \<exists>e q. q \<in> set ps \<and> Image_open s q = Inl e \<and> decode_all s ps = Inl e"
proof (induction ps)
  case Nil
  then show ?case by simp
next
  case (Cons a ps)
  show ?case
  proof (cases "Image_open s a")
    case (Inl e)
    then show ?thesis by auto
  next
    case (Inr im)
    with Cons.prems have "p \<in> set ps" by auto
    from Cons.IH [OF this Cons.prems(2)] obtain e q
      where "q \<in> set ps" "Image_open s q = Inl e" "decode_all s ps = Inl e" by blast
    with Inr show ?thesis by auto
  qed
qed

lemma decode_all_succeeds:
  "(\<And>p. p \<in> set ps \<Longrightarrow> \<exists>im. Image_open s p = Inr im) \<Longrightarrow> \<exists>ims. decode_all s ps = Inr ims"
proof (induction ps)
  case Nil
  show ?case by simp
next
  case (Cons a ps)
  from Cons.prems obtain im where "Image_open s a = Inr im" by auto
  moreover from Cons obtain ims where "decode_all s ps = Inr ims" by auto
  ultimately show ?case by simp
qed

lemma images_to_pdf_from_files_decode_error:
  "decode_all s ps = Inl e \<Longrightarrow> images_to_pdf_from_files s ps out = (Inl e, s)"
  by (cases ps)
     (simp_all add: images_to_pdf_from_files_def images_to_pdf_from_files_loop_decode_all)

lemma images_to_pdf_decode_error:
  assumes "decode_all s (sorted_paths s d exts) = Inl e"
  shows "images_to_pdf s d out exts = (Inl e, s)"
proof -
  have "matching_entries s d exts \<noteq> []"
    using assms by (auto simp: sorted_paths_def)
  then show ?thesis
    using assms by (simp add: images_to_pdf_unfold images_to_pdf_from_files_decode_error)
qed

lemma Image_open_Dir: "Image_bound s \<Longrightarrow> os_path_isdir s p \<Longrightarrow> Image_open s p = Inl IsADirectoryError"
  by (auto simp: Image_open_def os_path_isdir_def split: option.splits node.splits)

lemma sort_split_first:
  fixes f :: "'a::linorder"
  assumes "f \<in> set xs"
  shows "\<exists>pre post. sort xs = pre @ f # post \<and> (\<forall>g \<in> set pre. g \<in> set xs \<and> g < f)"
proof -
  from assms have "f \<in> set (sort xs)" by simp
  then obtain pre post where sp: "sort xs = pre @ f # post" and nin: "f \<notin> set pre"
    by (meson split_list_first)
  have "sorted (pre @ f # post)"
    using sorted_sort [of xs] sp by simp
  then have le: "\<And>g. g \<in> set pre \<Longrightarrow> g \<le> f"
    by (auto simp: sorted_append)
  have "\<forall>g \<in> set pre. g \<in> set xs \<and> g < f"
  proof
    fix g assume g: "g \<in> set pre"
    then have "g \<in> set (sort xs)" using sp by simp
    moreover have "g \<noteq> f" using g nin by auto
    ultimately show "g \<in> set xs \<and> g < f" using le [OF g] by auto
  qed
  with sp show ?thesis by blast
qed

subsection \<open>Creating directories and writing\<close>

lemma lookup_put: "lookup (put s p n) q = (if q = p then Some n else lookup s q)"
  by (simp add: lookup_def put_def update_conv')

lemma put_fields [simp]:
  "abspath_of (put s p n) = abspath_of s"
  "Image_bound (put s p n) = Image_bound s"
  "convert_from_path_bound (put s p n) = convert_from_path_bound s"
  "poppler_found (put s p n) = poppler_found s"
  by (simp_all add: put_def)

lemma extends_refl: "extends_by_dirs s s n"
  by (simp add: extends_by_dirs_def)

lemma extends_mono: "extends_by_dirs s s' n \<Longrightarrow> n \<le> m \<Longrightarrow> extends_by_dirs s s' m"
  unfolding extends_by_dirs_def by (metis le_trans)

lemma extends_trans:
  assumes "extends_by_dirs s s1 n" and "extends_by_dirs s1 s2 n"
  shows "extends_by_dirs s s2 n"
proof -
  have "lookup s2 q = lookup s q \<or> (lookup s q = None \<and> lookup s2 q = Some Dir \<and> length q \<le> n)" for q
    using assms unfolding extends_by_dirs_def by (metis option.distinct(1))
  then show ?thesis
    using assms by (simp add: extends_by_dirs_def)
qed

lemma os_mkdir_extends: "os_mkdir s p = (r, s') \<Longrightarrow> extends_by_dirs s s' (length p)"
  by (auto simp: os_mkdir_def extends_refl extends_by_dirs_def lookup_put os_path_exists_def
      split: if_splits option.splits)

lemma os_mkdir_ok_isdir: "os_mkdir s p = (Inr u, s') \<Longrightarrow> os_path_isdir s' p"
  by (auto simp: os_mkdir_def os_path_isdir_def lookup_put split: if_splits)

lemma dirname_shorter:
  assumes "os_path_basename name \<noteq> []"
  shows "length (os_path_dirname name) < length name"
proof -
  let ?h0 = "dropWhile (\<lambda>c. c \<noteq> CHR ''/'') (rev name)"
  let ?t0 = "takeWhile (\<lambda>c. c \<noteq> CHR ''/'') (rev name)"
  have "length ?t0 + length ?h0 = length name"
    using takeWhile_dropWhile_id [of "\<lambda>c. c \<noteq> CHR ''/''" "rev name"]
    by (metis length_append length_rev)
  moreover have "0 < length ?t0"
    using assms by (simp add: os_path_basename_def os_path_split_def Let_def)
  ultimately have less: "length ?h0 < length name"
    by linarith
  have "length (rstrip_sep (rev ?h0)) \<le> length ?h0"
    by (simp add: rstrip_sep_def length_dropWhile_le)
  moreover have "os_path_dirname name = rstrip_sep (rev ?h0) \<or> os_path_dirname name = rev ?h0"
    unfolding os_path_dirname_def os_path_split_def Let_def fst_conv by metis
  ultimately have "length (os_path_dirname name) \<le> length ?h0"
    by auto
  with less show ?thesis
    by linarith
qed

lemma ignore_exists_snd:
  "snd (case x of (Inl FileExistsError, s') \<Rightarrow> (Inr (), s') | r' \<Rightarrow> r') = snd x"
  by (cases x) (simp split: sum.splits error.splits)

lemma mkdir_exist_ok_cases:
  assumes "(case os_mkdir s1 name of
              (Inl e, s2) \<Rightarrow> if os_path_isdir s2 name then (Inr (), s2) else (Inl e, s2)
            | (Inr v, s2) \<Rightarrow> (Inr (), s2)) = (r, s')"
  shows "extends_by_dirs s1 s' (length name) \<and> (r = Inr () \<longrightarrow> os_path_isdir s' name)"
proof -
  obtain r2 s2 where mk: "os_mkdir s1 name = (r2, s2)"
    by (rule prod.exhaust)
  have ext: "extends_by_dirs s1 s2 (length name)"
    using mk by (rule os_mkdir_extends)
  show ?thesis
  proof (cases r2)
    case (Inl e)
    with assms mk have "s' = s2" and "r = Inr () \<longrightarrow> os_path_isdir s2 name"
      by (auto split: if_splits)
    with ext show ?thesis by simp
  next
    case (Inr v)
    with assms mk have "s' = s2" by simp
    moreover have "os_path_isdir s2 name"
      using mk Inr os_mkdir_ok_isdir by blast
    ultimately show ?thesis using ext by simp
  qed
qed

lemma os_makedirs_extends_ok:
  "os_makedirs s name = (r, s') \<Longrightarrow>
   extends_by_dirs s s' (length name) \<and> (r = Inr () \<longrightarrow> os_path_isdir s' name)"
proof (induction s name arbitrary: r s' rule: os_makedirs.induct)
  case (1 s name)
  let ?head = "os_path_dirname name"
  let ?rec = "?head \<noteq> [] \<and> os_path_basename name \<noteq> [] \<and> \<not> os_path_exists s ?head"
  let ?first = "if ?rec
                then (case os_makedirs s ?head of
                        (Inl FileExistsError, s') \<Rightarrow> (Inr (), s')
                      | r' \<Rightarrow> r')
                else (Inr (), s)"
  obtain r1 s1 where first: "?first = (r1, s1)"
    by (rule prod.exhaust)
  have unf: "os_makedirs s name =
             (case (r1, s1) of
                (Inl e, s1) \<Rightarrow> (Inl e, s1)
              | (Inr u, s1) \<Rightarrow>
                  (case os_mkdir s1 name of
                     (Inl e, s2) \<Rightarrow> if os_path_isdir s2 name then (Inr (), s2) else (Inl e, s2)
                   | (Inr v, s2) \<Rightarrow> (Inr (), s2)))"
    unfolding first [symmetric] by (subst os_makedirs.simps) (simp only: Let_def)
  have ext1: "extends_by_dirs s s1 (length name)"
  proof (cases ?rec)
    case True
    obtain r0 s0 where rec: "os_makedirs s ?head = (r0, s0)"
      by (rule prod.exhaust)
    have "extends_by_dirs s s0 (length ?head)"
      using "1.IH" [OF refl refl True rec] by simp
    moreover have "length ?head < length name"
      using True by (simp add: dirname_shorter)
    ultimately have "extends_by_dirs s s0 (length name)"
      by (simp add: extends_mono)
    moreover have "s1 = s0"
      using first True rec ignore_exists_snd [of "(r0, s0)"] by simp
    ultimately show ?thesis by simp
  next
    case False
    with first show ?thesis by (simp add: extends_refl)
  qed
  show ?case
  proof (cases r1)
    case (Inl e)
    with unf "1.prems" have "s' = s1" and "r = Inl e"
      by simp_all
    with ext1 show ?thesis by simp
  next
    case (Inr u)
    with unf "1.prems" have
      "(case os_mkdir s1 name of
          (Inl e, s2) \<Rightarrow> if os_path_isdir s2 name then (Inr (), s2) else (Inl e, s2)
        | (Inr v, s2) \<Rightarrow> (Inr (), s2)) = (r, s')"
      by simp
    from mkdir_exist_ok_cases [OF this] ext1 show ?thesis
      using extends_trans by blast
  qed
qed

lemma rev_dropWhile_prefix: "\<exists>r. xs = rev (dropWhile P (rev xs)) @ r"
proof -
  have "rev xs = takeWhile P (rev xs) @ dropWhile P (rev xs)"
    by simp
  then have "xs = rev (dropWhile P (rev xs)) @ rev (takeWhile P (rev xs))"
    by (metis rev_append rev_rev_ident)
  then show ?thesis ..
qed

lemma dirname_prefix: "\<exists>r. p = os_path_dirname p @ r"
proof -
  let ?h0 = "rev (dropWhile (\<lambda>c. c \<noteq> CHR ''/'') (rev p))"
  obtain r0 where r0: "p = ?h0 @ r0"
    using rev_dropWhile_prefix by blast
  obtain r1 where r1: "?h0 = rstrip_sep ?h0 @ r1"
    unfolding rstrip_sep_def using rev_dropWhile_prefix by blast
  have "os_path_dirname p = rstrip_sep ?h0 \<or> os_path_dirname p = ?h0"
    unfolding os_path_dirname_def os_path_split_def Let_def fst_conv by metis
  then show ?thesis
  proof
    assume "os_path_dirname p = rstrip_sep ?h0"
    then have "p = os_path_dirname p @ (r1 @ r0)"
      using r0 r1 by (metis append_assoc)
    then show ?thesis ..
  next
    assume "os_path_dirname p = ?h0"
    then have "p = os_path_dirname p @ r0"
      using r0 by simp
    then show ?thesis ..
  qed
qed

lemma dirname_neq_shorter:
  assumes "os_path_dirname p \<noteq> p"
  shows "length (os_path_dirname p) < length p"
proof -
  obtain r where r: "p = os_path_dirname p @ r"
    using dirname_prefix by blast
  with assms have "r \<noteq> []"
    by auto
  then have "length (os_path_dirname p @ r) > length (os_path_dirname p)"
    by simp
  with r show ?thesis
    by simp
qed

lemma extends_isdir:
  "extends_by_dirs s s1 n \<Longrightarrow> n < length p \<Longrightarrow> os_path_isdir s1 p = os_path_isdir s p"
  unfolding extends_by_dirs_def os_path_isdir_def
  by (metis not_le)

lemma prepare_output:
  assumes "can_write s p"
  shows "\<exists>s1. (if os_path_dirname p \<noteq> [] \<and> \<not> os_path_isdir s (os_path_dirname p)
               then os_makedirs s (os_path_dirname p) else (Inr (), s)) = (Inr (), s1) \<and>
              os_path_isdir s1 (os_path_dirname p) \<and> \<not> os_path_isdir s1 p \<and>
              extends_by_dirs s s1 (length (os_path_dirname p))"
proof (cases "os_path_isdir s (os_path_dirname p)")
  case True
  with assms show ?thesis
    by (simp add: can_write_def extends_refl)
next
  case False
  with assms have ne: "os_path_dirname p \<noteq> []" and neq: "os_path_dirname p \<noteq> p"
    and ok: "fst (os_makedirs s (os_path_dirname p)) = Inr ()" and nd: "\<not> os_path_isdir s p"
    by (simp_all add: can_write_def)
  obtain r s1 where mk: "os_makedirs s (os_path_dirname p) = (r, s1)"
    by (rule prod.exhaust)
  with ok have r: "r = Inr ()"
    by simp
  from os_makedirs_extends_ok [OF mk] r
  have ext: "extends_by_dirs s s1 (length (os_path_dirname p))"
    and dir: "os_path_isdir s1 (os_path_dirname p)"
    by simp_all
  have "\<not> os_path_isdir s1 p"
    using extends_isdir [OF ext dirname_neq_shorter [OF neq]] nd by simp
  with False ne mk r ext dir show ?thesis
    by simp
qed

lemma write_file_ok:
  "\<not> os_path_isdir s p \<Longrightarrow> os_path_isdir s (os_path_dirname p) \<Longrightarrow>
   write_file s p c = (Inr (), put s p (File c))"
  by (simp add: write_file_def)

lemma decode_all_map:
  "map (Image_open s) ps = map Inr ims \<Longrightarrow> decode_all s ps = Inr ims"
proof (induction ps arbitrary: ims)
  case Nil
  then show ?case by simp
next
  case (Cons p ps)
  then obtain im ims' where "ims = im # ims'" "Image_open s p = Inr im"
    "map (Image_open s) ps = map Inr ims'"
    by (cases ims) auto
  with Cons.IH show ?case by simp
qed

lemma images_to_pdf_from_files_ok:
  assumes ne: "ps \<noteq> []" and dec: "decode_all s ps = Inr ims"
    and cw: "can_write s (os_path_abspath s out)"
  shows "\<exists>s1. extends_by_dirs s s1 (length (os_path_dirname (os_path_abspath s out))) \<and>
              images_to_pdf_from_files s ps out =
                (Inr (os_path_abspath s out),
                 put s1 (os_path_abspath s out) (File (Pdf_file (map normalize ims))))"
proof -
  let ?P = "os_path_abspath s out"
  from prepare_output [OF cw] obtain s1 where
    prep: "(if os_path_dirname ?P \<noteq> [] \<and> \<not> os_path_isdir s (os_path_dirname ?P)
            then os_makedirs s (os_path_dirname ?P) else (Inr (), s)) = (Inr (), s1)"
    and dir: "os_path_isdir s1 (os_path_dirname ?P)" and nd: "\<not> os_path_isdir s1 ?P"
    and ext: "extends_by_dirs s s1 (length (os_path_dirname ?P))"
    by blast
  have "length ims = length ps"
    using dec by (rule decode_all_length)
  with ne obtain first rest where ims: "ims = first # rest"
    by (cases ims) auto
  have same: "os_path_abspath s1 out = ?P"
    using ext by (simp add: extends_by_dirs_def os_path_abspath_def)
  have w: "Image_save_all_PDF s1 (normalize first) ?P (map normalize rest)
           = (Inr (), put s1 ?P (File (Pdf_file (map normalize ims))))"
    using write_file_ok [OF nd dir] by (simp add: Image_save_all_PDF_def ims)
  have "images_to_pdf_from_files s ps out =
        (Inr ?P, put s1 ?P (File (Pdf_file (map normalize ims))))"
    unfolding images_to_pdf_from_files_def images_to_pdf_from_files_loop_decode_all dec Let_def
    using ne by (simp only: prep if_False sum.case prod.case append_Nil ims list.map list.case w)
  with ext show ?thesis by blast
qed

subsection \<open>Page files\<close>

lemma digits_value_append:
  "digits_value acc (xs @ ys) = digits_value (digits_value acc xs) ys"
  by (induction xs arbitrary: acc) simp_all

lemma of_char_digit: "d < 10 \<Longrightarrow> of_char (digit_char d) = 48 + d"
  by (simp add: digit_char_def)

lemma digits_value_str_nat: "digits_value 0 (str_nat n) = n"
proof (induction n rule: str_nat.induct)
  case (1 n)
  show ?case
  proof (cases "n < 10")
    case True
    then show ?thesis
      by (subst str_nat.simps) (simp add: of_char_digit)
  next
    case False
    then have "digits_value 0 (str_nat n) =
               digits_value (digits_value 0 (str_nat (n div 10))) [digit_char (n mod 10)]"
      by (subst str_nat.simps) (simp add: digits_value_append)
    also have "\<dots> = 10 * (n div 10) + n mod 10"
      using False "1.IH" by (simp add: of_char_digit)
    finally show ?thesis by simp
  qed
qed

lemma str_nat_inj: "str_nat m = str_nat n \<Longrightarrow> m = n"
  by (metis digits_value_str_nat)

lemma str_inj: "0 \<le> i \<Longrightarrow> 0 \<le> j \<Longrightarrow> str i = str j \<Longrightarrow> i = j"
  using str_nat_inj [of "nat i" "nat j"] by (simp add: str_def)

lemma digit_char_not_sep: "d < 10 \<Longrightarrow> digit_char d \<noteq> CHR ''/''"
proof
  assume "d < 10" and "digit_char d = CHR ''/''"
  then have "of_char (digit_char d) = (of_char CHR ''/'' :: nat)"
    by simp
  with \<open>d < 10\<close> show False
    by (simp add: of_char_digit)
qed

lemma str_nat_no_sep: "CHR ''/'' \<notin> set (str_nat n)"
proof (induction n rule: str_nat.induct)
  case (1 n)
  show ?case
  proof (cases "n < 10")
    case True
    then show ?thesis
      by (subst str_nat.simps) (simp add: digit_char_not_sep [symmetric] digit_char_not_sep)
  next
    case False
    with "1.IH" show ?thesis
      by (subst str_nat.simps) (simp add: digit_char_not_sep [of "n mod 10", symmetric])
  qed
qed

lemma os_path_join_relative:
  "take 1 b \<noteq> ''/'' \<Longrightarrow>
   os_path_join d b = (if d = [] \<or> last d = CHR ''/'' then d @ b else d @ ''/'' @ b)"
  by (simp add: os_path_join_def)

lemma dirname_no_sep: "CHR ''/'' \<notin> set b \<Longrightarrow> os_path_dirname b = []"
proof -
  assume "CHR ''/'' \<notin> set b"
  then have "dropWhile (\<lambda>c. c \<noteq> CHR ''/'') (rev b) = []"
    by auto
  then show ?thesis
    by (simp add: os_path_dirname_def os_path_split_def)
qed

lemma dropWhile_rev_last:
  "d \<noteq> [] \<Longrightarrow> \<not> P (last d) \<Longrightarrow> dropWhile P (rev d) = rev d"
  by (cases d rule: rev_cases) simp_all

lemma all_sep_append: "all_sep (xs @ ys) = (all_sep xs \<and> all_sep ys)"
  by (simp add: all_sep_def)

lemma all_sep_last: "d \<noteq> [] \<Longrightarrow> all_sep d \<Longrightarrow> last d = CHR ''/''"
  by (cases d rule: rev_cases) (simp_all add: all_sep_def split: if_splits)

lemma dirname_join:
  assumes tidy: "no_trailing_sep d" and b: "CHR ''/'' \<notin> set b"
  shows "os_path_dirname (os_path_join d b) = d"
proof -
  have rel: "take 1 b \<noteq> ''/''"
    using b by (cases b) auto
  have drop_b: "\<And>ys. dropWhile (\<lambda>c. c \<noteq> CHR ''/'') (rev b @ ys) = dropWhile (\<lambda>c. c \<noteq> CHR ''/'') ys"
    using b by (intro dropWhile_append2) auto
  show ?thesis
  proof (cases "d = []")
    case True
    then show ?thesis
      using dirname_no_sep [OF b] by (simp add: os_path_join_relative [OF rel])
  next
    case False
    show ?thesis
    proof (cases "last d = CHR ''/''")
      case True
      with tidy False have sep: "all_sep d"
        by (simp add: no_trailing_sep_def)
      have j: "os_path_join d b = d @ b"
        using True by (simp add: os_path_join_relative [OF rel])
      have "dropWhile (\<lambda>c. c \<noteq> CHR ''/'') (rev (d @ b)) = rev d"
        using drop_b [of "rev d"] dropWhile_rev_last [OF False, of "\<lambda>c. c \<noteq> CHR ''/''"] True
        by simp
      then show ?thesis
        unfolding j os_path_dirname_def os_path_split_def Let_def using sep by simp
    next
      case nl: False
      have j: "os_path_join d b = d @ ''/'' @ b"
        using nl False by (simp add: os_path_join_relative [OF rel])
      have h0: "dropWhile (\<lambda>c. c \<noteq> CHR ''/'') (rev (d @ ''/'' @ b)) = CHR ''/'' # rev d"
        using drop_b [of "CHR ''/'' # rev d"] by simp
      have ns: "\<not> all_sep (d @ ''/'')"
        using all_sep_last [OF False] nl by (auto simp: all_sep_append)
      have "rstrip_sep (d @ ''/'') = d"
        using dropWhile_rev_last [OF False, of "\<lambda>c. c = CHR ''/''"] nl
        by (simp add: rstrip_sep_def)
      then show ?thesis
        unfolding j os_path_dirname_def os_path_split_def Let_def h0 using ns by simp
    qed
  qed
qed

lemma join_longer: "take 1 b \<noteq> ''/'' \<Longrightarrow> b \<noteq> [] \<Longrightarrow> length d < length (os_path_join d b)"
  by (simp add: os_path_join_relative)

lemma join_inj:
  "take 1 a \<noteq> ''/'' \<Longrightarrow> take 1 b \<noteq> ''/'' \<Longrightarrow> os_path_join d a = os_path_join d b \<Longrightarrow> a = b"
  by (simp add: os_path_join_relative split: if_splits)

lemma str_no_sep: "0 \<le> n \<Longrightarrow> CHR ''/'' \<notin> set (str n)"
  by (simp add: str_def str_nat_no_sep)

lemma page_path_inj: "0 \<le> i \<Longrightarrow> 0 \<le> j \<Longrightarrow> page_path d i = page_path d j \<Longrightarrow> i = j"
proof -
  assume i: "0 \<le> i" and j: "0 \<le> j" and eq: "page_path d i = page_path d j"
  have "''page_'' @ str i @ ''.png'' = ''page_'' @ str j @ ''.png''"
    using eq unfolding page_path_def by (rule join_inj [rotated 2]) simp_all
  then have "str i = str j"
    by simp
  with i j show "i = j"
    by (rule str_inj)
qed

lemma dirname_page_path:
  "no_trailing_sep d \<Longrightarrow> 0 \<le> n \<Longrightarrow> os_path_dirname (page_path d n) = d"
  unfolding page_path_def by (rule dirname_join) (simp_all add: str_no_sep)

lemma page_path_longer: "length d < length (page_path d n)"
  unfolding page_path_def by (rule join_longer) simp_all

lemma isdir_put:
  "os_path_isdir (put s p (File c)) q = (q \<noteq> p \<and> os_path_isdir s q)"
  by (simp add: os_path_isdir_def lookup_put)

lemma convert_pdf_to_images_loop_step:
  assumes "\<not> os_path_isdir s (page_path d c)"
    and "os_path_isdir s (os_path_dirname (page_path d c))"
  shows "convert_pdf_to_images_loop s d (page # pages) c =
         convert_pdf_to_images_loop
           (put s (page_path d c) (File (Image_file ''PNG'' page))) d pages (c + 1)"
  using write_file_ok [OF assms]
  by (simp add: Image_save_def page_path_def)

lemma convert_pdf_to_images_loop_writes:
  assumes "no_trailing_sep d" and "0 \<le> c" and "os_path_isdir s d"
    and "\<forall>i < length pages. \<not> os_path_isdir s (page_path d (c + int i))"
  shows "\<exists>s'. convert_pdf_to_images_loop s d pages c = (Inr (c + int (length pages) - 1), s') \<and>
              (\<forall>i < length pages.
                 lookup s' (page_path d (c + int i)) = Some (File (Image_file ''PNG'' (pages ! i)))) \<and>
              (\<forall>p. (\<forall>i < length pages. p \<noteq> page_path d (c + int i)) \<longrightarrow>
                    lookup s' p = lookup s p)"
  using assms
proof (induction pages arbitrary: s c)
  case Nil
  then show ?case by simp
next
  case (Cons page pages)
  let ?s1 = "put s (page_path d c) (File (Image_file ''PNG'' page))"
  have free0: "\<not> os_path_isdir s (page_path d c)"
    using Cons.prems(4) by force
  have parent: "os_path_dirname (page_path d c) = d"
    using Cons.prems(1,2) by (rule dirname_page_path)
  have step: "convert_pdf_to_images_loop s d (page # pages) c =
              convert_pdf_to_images_loop ?s1 d pages (c + 1)"
    using free0 Cons.prems(3) by (intro convert_pdf_to_images_loop_step) (simp_all add: parent)
  have dir1: "os_path_isdir ?s1 d"
    using Cons.prems(3) free0 by (auto simp: isdir_put)
  have free1: "\<forall>i < length pages. \<not> os_path_isdir ?s1 (page_path d (c + 1 + int i))"
  proof (intro allI impI)
    fix i assume "i < length pages"
    then have "\<not> os_path_isdir s (page_path d (c + int (Suc i)))"
      using Cons.prems(4) by (metis Suc_less_eq length_Cons)
    moreover have "c + int (Suc i) = c + 1 + int i"
      by simp
    ultimately have "\<not> os_path_isdir s (page_path d (c + 1 + int i))"
      by metis
    then show "\<not> os_path_isdir ?s1 (page_path d (c + 1 + int i))"
      by (simp only: isdir_put) simp
  qed
  have c1: "0 \<le> c + 1"
    using Cons.prems(2) by simp
  from Cons.IH [OF Cons.prems(1) c1 dir1 free1] obtain s' where
    run: "convert_pdf_to_images_loop ?s1 d pages (c + 1) = (Inr (c + 1 + int (length pages) - 1), s')"
    and got: "\<forall>i < length pages.
                lookup s' (page_path d (c + 1 + int i)) = Some (File (Image_file ''PNG'' (pages ! i)))"
    and frame: "\<forall>p. (\<forall>i < length pages. p \<noteq> page_path d (c + 1 + int i)) \<longrightarrow>
                     lookup s' p = lookup ?s1 p"
    by blast
  have first_kept: "lookup s' (page_path d c) = Some (File (Image_file ''PNG'' page))"
  proof -
    have "\<forall>i < length pages. page_path d c \<noteq> page_path d (c + 1 + int i)"
    proof (intro allI impI notI)
      fix i assume "page_path d c = page_path d (c + 1 + int i)"
      then have "c = c + 1 + int i"
        using Cons.prems(2) by (intro page_path_inj [of c "c + 1 + int i" d]) simp_all
      then show False by simp
    qed
    with frame have "lookup s' (page_path d c) = lookup ?s1 (page_path d c)"
      by blast
    then show ?thesis
      by (simp add: lookup_put)
  qed
  have all_got: "\<forall>i < length (page # pages).
                   lookup s' (page_path d (c + int i)) =
                   Some (File (Image_file ''PNG'' ((page # pages) ! i)))"
  proof (intro allI impI)
    fix i assume i: "i < length (page # pages)"
    show "lookup s' (page_path d (c + int i)) =
          Some (File (Image_file ''PNG'' ((page # pages) ! i)))"
    proof (cases i)
      case 0
      with first_kept show ?thesis by simp
    next
      case (Suc k)
      with i have "k < length pages" by simp
      with got have "lookup s' (page_path d (c + 1 + int k)) =
                     Some (File (Image_file ''PNG'' (pages ! k)))"
        by blast
      moreover have "c + int i = c + 1 + int k"
        using Suc by simp
      moreover have "(page # pages) ! i = pages ! k"
        using Suc by simp
      ultimately show ?thesis
        by metis
    qed
  qed
  have all_frame: "\<forall>p. (\<forall>i < length (page # pages). p \<noteq> page_path d (c + int i)) \<longrightarrow>
                        lookup s' p = lookup s p"
  proof (intro allI impI)
    fix p assume other: "\<forall>i < length (page # pages). p \<noteq> page_path d (c + int i)"
    have "p \<noteq> page_path d c"
      using other by force
    moreover have "\<forall>i < length pages. p \<noteq> page_path d (c + 1 + int i)"
    proof (intro allI impI)
      fix i assume "i < length pages"
      then have "p \<noteq> page_path d (c + int (Suc i))"
        using other by (metis Suc_less_eq length_Cons)
      moreover have "c + int (Suc i) = c + 1 + int i"
        by simp
      ultimately show "p \<noteq> page_path d (c + 1 + int i)"
        by metis
    qed
    ultimately show "lookup s' p = lookup s p"
      using frame by (simp add: lookup_put)
  qed
  have "convert_pdf_to_images_loop s d (page # pages) c =
        (Inr (c + int (length (page # pages)) - 1), s')"
    using step run by simp
  with all_got all_frame show ?case
    by blast
qed

lemma extends_lookup_Some:
  "extends_by_dirs s s1 n \<Longrightarrow> lookup s p = Some x \<Longrightarrow> lookup s1 p = Some x"
  unfolding extends_by_dirs_def by (metis option.distinct(1))

lemma ensure_output_dir:
  assumes "os_path_isdir s d \<or> fst (os_makedirs s d) = Inr ()"
  shows "\<exists>s1. (if \<not> os_path_isdir s d then os_makedirs s d else (Inr (), s)) = (Inr (), s1) \<and>
              os_path_isdir s1 d \<and> extends_by_dirs s s1 (length d)"
proof (cases "os_path_isdir s d")
  case True
  then show ?thesis
    by (simp add: extends_refl)
next
  case False
  obtain r s1 where mk: "os_makedirs s d = (r, s1)"
    by (rule prod.exhaust)
  with assms False have r: "r = Inr ()"
    by simp
  from os_makedirs_extends_ok [OF mk] r False mk show ?thesis
    by simp
qed

subsection \<open>Normalization\<close>

lemma normalize_mode: "mode (normalize im) = ''RGB''"
  by (simp add: normalize_def Image_paste_def Image_new_def Image_convert_RGB_def)

lemma normalize_size: "size_wh (normalize im) = size_wh im"
  by (simp add: normalize_def Image_paste_def Image_new_def Image_convert_RGB_def)

lemma normalize_opaque: "snd (pixels (normalize im) xy) = 255"
  by (simp add: normalize_def Image_paste_def Image_new_def Image_convert_RGB_def
      split: option.splits)

lemma BLEND8_transparent: "BLEND8 0 255 v = 255"
  by (simp add: BLEND8_def DIV255_def)

lemma normalize_RGBA_transparent:
  assumes "mode im = ''RGBA''" and "snd (pixels im xy) = 0"
  shows "fst (pixels (normalize im) xy) = (255, 255, 255)"
proof (cases "inside im xy")
  case True
  obtain r g b where c: "fst (pixels im xy) = (r, g, b)"
    by (rule prod_cases3)
  show ?thesis
    using assms True c
    by (simp add: normalize_def Image_paste_def Image_new_def Image_split_3_def
        blend_rgb_def BLEND8_transparent)
next
  case False
  with assms show ?thesis
    by (simp add: normalize_def Image_paste_def Image_new_def)
qed

lemma normalize_no_mask:
  assumes "mode im = ''LA'' \<or> (mode im = ''P'' \<and> info_transparency im)"
    and "inside im xy"
  shows "fst (pixels (normalize im) xy) = fst (pixels im xy)"
  using assms by (auto simp: normalize_def Image_paste_def Image_new_def)

lemma normalize_convert:
  assumes "mode im \<noteq> ''RGBA''" and "mode im \<noteq> ''LA''"
    and "\<not> (mode im = ''P'' \<and> info_transparency im)"
  shows "normalize im = Image_convert_RGB im"
  using assms by (auto simp: normalize_def)

subsection \<open>Evaluating the sample inputs\<close>

lemma page_path_home_1: "page_path ''/home/pages'' 1 = ''/home/pages/page_1.png''"
  by code_simp

lemma page_path_home_2: "page_path ''/home/pages'' 2 = ''/home/pages/page_2.png''"
  by code_simp

lemma home_pages_free:
  "\<not> os_path_isdir home ''/home/pages/page_1.png''"
  "\<not> os_path_isdir home ''/home/pages/page_2.png''"
  by code_simp+

lemma home_pages_creatable:
  "no_trailing_sep ''/home/pages''" "fst (os_makedirs home ''/home/pages'') = Inr ()"
  by code_simp+

lemma Image_open_home_grey: "Image_open home ''/home/grey.png'' = Inr grey_transparent"
  by (simp add: Image_open_def lookup_def home_def)

lemma can_write_home_out: "can_write home ''/home/out/all.pdf''"
  by code_simp

lemma select_home_png:
  "select_files [''b.PNG'', ''a.png'', ''notes.txt'', ''sub.jpg''] [''.png'']
   = [''b.PNG'', ''a.png'']"
  by code_simp

lemma sort_home_png: "sort [''b.PNG'', ''a.png''] = [''a.png'', ''b.PNG'']"
  by code_simp

lemma abspath_home [simp]:
  "os_path_abspath home p = (if take 1 p = ''/'' then p else ''/home/'' @ p)"
  by (simp add: os_path_abspath_def home_def)

lemma listdir_home_in:
  "os_listdir home ''/home/in'' = Inr [''b.PNG'', ''a.png'', ''notes.txt'', ''sub.jpg'']"
  by (simp add: os_listdir_def lookup_def home_def os_path_dirname_def os_path_basename_def
      os_path_split_def all_sep_def rstrip_sep_def)

lemma select_home_bmp: "matching_entries home ''in'' [''.bmp''] = []"
  by code_simp

lemma select_home_png_jpg:
  "select_files [''b.PNG'', ''a.png'', ''notes.txt'', ''sub.jpg''] [''.png'', ''.jpg'']
   = [''b.PNG'', ''a.png'', ''sub.jpg'']"
  by code_simp

lemma Image_open_home_a: "Image_open home ''/home/in/a.png'' = Inr colour_transparent"
  by (simp add: Image_open_def lookup_def home_def)

lemma Image_open_home_b: "Image_open home ''/home/in/b.PNG'' = Inr plain"
  by (simp add: Image_open_def lookup_def home_def)

lemma sorted_paths_home_txt: "sorted_paths home ''in'' [''.txt''] = [''/home/in/notes.txt'']"
  by code_simp

lemma Image_open_home_notes: "Image_open home ''/home/in/notes.txt'' = Inl UnidentifiedImageError"
  by (simp add: Image_open_def lookup_def home_def)

section \<open>The claims\<close>

text \<open>
  C1. Directory mode on a directory with N >= 1 entries whose lower-cased names end with
  an accepted extension, all of which decode, and with a writable output path: the call
  returns the absolute output path, and the output file is a PDF whose pages are the
  normalized images of exactly those N entries, in the ascending order of their names
  (the first sorted image is the base page, the others follow).
\<close>

theorem images_to_pdf_pages_in_sorted_order:
  assumes "os_listdir s (os_path_abspath s images_dir) = Inr names"
    and "select_files names exts \<noteq> []"
    and "map (\<lambda>f. Image_open s (os_path_join (os_path_abspath s images_dir) f))
           (sort (select_files names exts)) = map Inr ims"
    and "can_write s (os_path_abspath s output_pdf)"
  shows "\<exists>s'. images_to_pdf s images_dir output_pdf exts
                = (Inr (os_path_abspath s output_pdf), s') \<and>
              lookup s' (os_path_abspath s output_pdf)
                = Some (File (Pdf_file (map normalize ims))) \<and>
              length (map normalize ims)
                = length (filter (\<lambda>f. endswith (lower f) exts) names)"
proof -
  have m: "matching_entries s images_dir exts = select_files names exts"
    using assms(1) by (simp add: matching_entries_def)
  have sp: "sorted_paths s images_dir exts =
            map (os_path_join (os_path_abspath s images_dir)) (sort (select_files names exts))"
    by (simp add: sorted_paths_def m)
  have ne: "sorted_paths s images_dir exts \<noteq> []"
    using assms(2) by (simp add: sp sort_eq_Nil_iff)
  have "map (Image_open s) (sorted_paths s images_dir exts) = map Inr ims"
    using assms(3) by (simp add: sp comp_def)
  then have dec: "decode_all s (sorted_paths s images_dir exts) = Inr ims"
    by (rule decode_all_map)
  from images_to_pdf_from_files_ok [OF ne dec assms(4)] obtain s1 where
    "images_to_pdf_from_files s (sorted_paths s images_dir exts) output_pdf =
       (Inr (os_path_abspath s output_pdf),
        put s1 (os_path_abspath s output_pdf) (File (Pdf_file (map normalize ims))))"
    by blast
  then have run: "images_to_pdf s images_dir output_pdf exts =
       (Inr (os_path_abspath s output_pdf),
        put s1 (os_path_abspath s output_pdf) (File (Pdf_file (map normalize ims))))"
    using assms(2) m by (simp add: images_to_pdf_unfold)
  have "length ims = length (sorted_paths s images_dir exts)"
    using dec by (rule decode_all_length)
  then have "length ims = length (filter (\<lambda>f. endswith (lower f) exts) names)"
    by (simp add: sp select_files_def)
  with run show ?thesis
    by (simp add: lookup_put)
qed

theorem images_to_pdf_pages_in_sorted_order_witness:
  "os_listdir home (os_path_abspath home ''in'')
     = Inr [''b.PNG'', ''a.png'', ''notes.txt'', ''sub.jpg''] \<and>
   select_files [''b.PNG'', ''a.png'', ''notes.txt'', ''sub.jpg''] [''.png''] \<noteq> [] \<and>
   sort (select_files [''b.PNG'', ''a.png'', ''notes.txt'', ''sub.jpg''] [''.png''])
     = [''a.png'', ''b.PNG''] \<and>
   can_write home (os_path_abspath home ''out/all.pdf'') \<and>
   (\<exists>s'. images_to_pdf home ''in'' ''out/all.pdf'' [''.png'']
           = (Inr (os_path_abspath home ''out/all.pdf''), s') \<and>
         lookup s' (os_path_abspath home ''out/all.pdf'')
           = Some (File (Pdf_file (map normalize [colour_transparent, plain]))) \<and>
         length (map normalize [colour_transparent, plain])
           = length (filter (\<lambda>f. endswith (lower f) [''.png''])
                       [''b.PNG'', ''a.png'', ''notes.txt'', ''sub.jpg'']))"
proof -
  let ?names = "[''b.PNG'', ''a.png'', ''notes.txt'', ''sub.jpg'']"
  have a: "os_listdir home (os_path_abspath home ''in'') = Inr ?names"
    by (simp add: listdir_home_in)
  have b: "select_files ?names [''.png''] \<noteq> []"
    by (simp add: select_home_png)
  have srt: "sort (select_files ?names [''.png'']) = [''a.png'', ''b.PNG'']"
    by (simp only: select_home_png sort_home_png)
  have c: "map (\<lambda>f. Image_open home (os_path_join (os_path_abspath home ''in'') f))
             (sort (select_files ?names [''.png''])) = map Inr [colour_transparent, plain]"
    unfolding srt by (simp add: os_path_join_def Image_open_home_a Image_open_home_b)
  have d: "can_write home (os_path_abspath home ''out/all.pdf'')"
    using can_write_home_out by simp
  show ?thesis
    using a b srt d images_to_pdf_pages_in_sorted_order [OF a b c d] by blast
qed

text \<open>
  C2. File-list mode on a non-empty list of N paths that all decode, with a writable
  output path: the call returns the absolute output path, and the output file is a PDF of
  exactly N pages, the normalized images in the order of the list; the list is not
  sorted (the witness passes \<open>b.PNG\<close> before \<open>a.png\<close>).
\<close>

theorem images_to_pdf_from_files_pages_in_list_order:
  assumes "file_paths \<noteq> []"
    and "map (Image_open s) file_paths = map Inr ims"
    and "can_write s (os_path_abspath s output_pdf)"
  shows "\<exists>s'. images_to_pdf_from_files s file_paths output_pdf
                = (Inr (os_path_abspath s output_pdf), s') \<and>
              lookup s' (os_path_abspath s output_pdf)
                = Some (File (Pdf_file (map normalize ims))) \<and>
              length (map normalize ims) = length file_paths"
proof -
  have dec: "decode_all s file_paths = Inr ims"
    using assms(2) by (rule decode_all_map)
  from images_to_pdf_from_files_ok [OF assms(1) dec assms(3)] obtain s1 where
    "images_to_pdf_from_files s file_paths output_pdf =
       (Inr (os_path_abspath s output_pdf),
        put s1 (os_path_abspath s output_pdf) (File (Pdf_file (map normalize ims))))"
    by blast
  moreover have "length ims = length file_paths"
    using dec by (rule decode_all_length)
  ultimately show ?thesis
    by (simp add: lookup_put)
qed

theorem images_to_pdf_from_files_pages_in_list_order_witness:
  "[''/home/in/b.PNG'', ''/home/in/a.png''] \<noteq> [] \<and>
   map (Image_open home) [''/home/in/b.PNG'', ''/home/in/a.png'']
     = map Inr [plain, colour_transparent] \<and>
   can_write home (os_path_abspath home ''out/all.pdf'') \<and>
   (\<exists>s'. images_to_pdf_from_files home [''/home/in/b.PNG'', ''/home/in/a.png''] ''out/all.pdf''
           = (Inr (os_path_abspath home ''out/all.pdf''), s') \<and>
         lookup s' (os_path_abspath home ''out/all.pdf'')
           = Some (File (Pdf_file (map normalize [plain, colour_transparent]))) \<and>
         length (map normalize [plain, colour_transparent])
           = length [''/home/in/b.PNG'', ''/home/in/a.png''])"
proof -
  have a: "[''/home/in/b.PNG'', ''/home/in/a.png''] \<noteq> []"
    by simp
  have b: "map (Image_open home) [''/home/in/b.PNG'', ''/home/in/a.png'']
           = map Inr [plain, colour_transparent]"
    by (simp add: Image_open_home_a Image_open_home_b)
  have c: "can_write home (os_path_abspath home ''out/all.pdf'')"
    using can_write_home_out by simp
  show ?thesis
    using a b c images_to_pdf_from_files_pages_in_list_order [OF a b c] by blast
qed

text \<open>
  C3. The claim: an image with an alpha channel (RGBA, LA) or a palette with a
  transparency entry is composited over white, so that its transparent regions show
  white. The code does so for RGBA only (\<open>normalize_RGBA_transparent\<close>). For LA, and for P
  with a transparency entry, it pastes without a mask, and the page keeps the colour under
  the transparent pixel (\<open>normalize_no_mask\<close>): below, file-list mode on an LA image whose
  one pixel is black and fully transparent writes a page whose pixel is black, not white.
  Every page is in mode RGB and opaque all the same (\<open>normalize_mode\<close>,
  \<open>normalize_opaque\<close>), and the other modes are converted (\<open>normalize_convert\<close>).
\<close>

theorem grey_alpha_page_keeps_black:
  "mode grey_transparent = ''LA'' \<and> inside grey_transparent (0, 0) \<and>
   snd (pixels grey_transparent (0, 0)) = 0 \<and>
   (\<exists>s'. images_to_pdf_from_files home [''/home/grey.png''] ''out/all.pdf''
           = (Inr ''/home/out/all.pdf'', s') \<and>
         lookup s' ''/home/out/all.pdf'' = Some (File (Pdf_file [normalize grey_transparent]))) \<and>
   fst (pixels (normalize grey_transparent) (0, 0)) = (0, 0, 0) \<and>
   fst (pixels (normalize grey_transparent) (0, 0)) \<noteq> (255, 255, 255)"
proof -
  have la: "mode grey_transparent = ''LA''" and ins: "inside grey_transparent (0, 0)"
    and tr: "snd (pixels grey_transparent (0, 0)) = 0"
    and col: "fst (pixels grey_transparent (0, 0)) = (0, 0, 0)"
    by (simp_all add: grey_transparent_def inside_def)
  have dec: "decode_all home [''/home/grey.png''] = Inr [grey_transparent]"
    by (simp add: Image_open_home_grey)
  have cw: "can_write home (os_path_abspath home ''out/all.pdf'')"
    using can_write_home_out by simp
  from images_to_pdf_from_files_ok [OF _ dec cw] obtain s1 where
    "images_to_pdf_from_files home [''/home/grey.png''] ''out/all.pdf'' =
       (Inr (os_path_abspath home ''out/all.pdf''),
        put s1 (os_path_abspath home ''out/all.pdf'')
          (File (Pdf_file (map normalize [grey_transparent]))))"
    by blast
  then have run: "\<exists>s'. images_to_pdf_from_files home [''/home/grey.png''] ''out/all.pdf''
                        = (Inr ''/home/out/all.pdf'', s') \<and>
                      lookup s' ''/home/out/all.pdf''
                        = Some (File (Pdf_file [normalize grey_transparent]))"
    by (simp add: lookup_put)
  have px: "fst (pixels (normalize grey_transparent) (0, 0)) = (0, 0, 0)"
    using normalize_no_mask [of grey_transparent "(0, 0)"] la ins col by simp
  from la ins tr run px show ?thesis
    by simp
qed

text \<open>
  C4. For an existing PDF of K pages, with the rasterizer available and the output
  directory there or creatable and none of the page paths a directory,
  \<open>convert_pdf_to_images\<close> returns K and leaves, for each i from 1 to K, the i-th page
  as a PNG file at \<open>page_i.png\<close> in the output directory (decimal i without padding),
  whatever was at that path before. No other file is written: every other path names
  what it named before, or is a directory created on the way to the output directory.
\<close>

theorem convert_pdf_to_images_writes_pages:
  assumes pdf: "lookup s (os_path_abspath s pdf_path) = Some (File (Pdf_file pages))"
    and bound: "convert_from_path_bound s"
    and poppler: "poppler_found s poppler_path"
    and d: "d = os_path_abspath s output_dir"
    and tidy: "no_trailing_sep d"
    and out: "os_path_isdir s d \<or> fst (os_makedirs s d) = Inr ()"
    and free: "\<forall>i < length pages. \<not> os_path_isdir s (page_path d (1 + int i))"
  shows "\<exists>s'. convert_pdf_to_images s pdf_path poppler_path output_dir
                = (Inr (int (length pages)), s') \<and>
              (\<forall>i < length pages.
                 lookup s' (page_path d (1 + int i))
                   = Some (File (Image_file ''PNG'' (pages ! i)))) \<and>
              (\<forall>p. (\<forall>i < length pages. p \<noteq> page_path d (1 + int i)) \<longrightarrow>
                    lookup s' p = lookup s p \<or> (lookup s p = None \<and> lookup s' p = Some Dir))"
proof -
  let ?pdf = "os_path_abspath s pdf_path"
  have isfile: "os_path_isfile s ?pdf"
    using pdf by (simp add: os_path_isfile_def)
  from ensure_output_dir [OF out] obtain s1 where
    prep: "(if \<not> os_path_isdir s d then os_makedirs s d else (Inr (), s)) = (Inr (), s1)"
    and dir1: "os_path_isdir s1 d" and ext: "extends_by_dirs s s1 (length d)"
    by blast
  have bound1: "convert_from_path_bound s1" and poppler1: "poppler_found s1 poppler_path"
    using ext bound poppler by (simp_all add: extends_by_dirs_def)
  have "lookup s1 ?pdf = Some (File (Pdf_file pages))"
    using ext pdf by (rule extends_lookup_Some)
  then have raster: "convert_from_path s1 ?pdf poppler_path = Inr pages"
    using poppler1 by (simp add: convert_from_path_def)
  have free1: "\<forall>i < length pages. \<not> os_path_isdir s1 (page_path d (1 + int i))"
    using free extends_isdir [OF ext page_path_longer] by simp
  from convert_pdf_to_images_loop_writes [OF tidy _ dir1 free1] obtain s' where
    run: "convert_pdf_to_images_loop s1 d pages 1 = (Inr (1 + int (length pages) - 1), s')"
    and got: "\<forall>i < length pages.
                lookup s' (page_path d (1 + int i)) = Some (File (Image_file ''PNG'' (pages ! i)))"
    and frame: "\<forall>p. (\<forall>i < length pages. p \<noteq> page_path d (1 + int i)) \<longrightarrow>
                     lookup s' p = lookup s1 p"
    by auto
  have call: "convert_pdf_to_images s pdf_path poppler_path output_dir
              = (Inr (int (length pages)), s')"
    unfolding convert_pdf_to_images_def Let_def d [symmetric]
    using isfile bound1 by (simp add: prep raster run)
  have others: "\<forall>p. (\<forall>i < length pages. p \<noteq> page_path d (1 + int i)) \<longrightarrow>
                     lookup s' p = lookup s p \<or> (lookup s p = None \<and> lookup s' p = Some Dir)"
  proof (intro allI impI)
    fix p assume "\<forall>i < length pages. p \<noteq> page_path d (1 + int i)"
    with frame have "lookup s' p = lookup s1 p"
      by blast
    moreover have "lookup s1 p = lookup s p \<or> (lookup s p = None \<and> lookup s1 p = Some Dir)"
      using ext unfolding extends_by_dirs_def by blast
    ultimately show "lookup s' p = lookup s p \<or> (lookup s p = None \<and> lookup s' p = Some Dir)"
      by simp
  qed
  from call got others show ?thesis
    by blast
qed

theorem convert_pdf_to_images_writes_pages_witness:
  "lookup home (os_path_abspath home ''doc.pdf'') = Some (File (Pdf_file [plain, colour_transparent])) \<and>
   no_trailing_sep (os_path_abspath home ''pages'') \<and>
   (\<exists>s'. convert_pdf_to_images home ''doc.pdf'' None ''pages'' = (Inr 2, s') \<and>
         lookup s' ''/home/pages/page_1.png'' = Some (File (Image_file ''PNG'' plain)) \<and>
         lookup s' ''/home/pages/page_2.png'' = Some (File (Image_file ''PNG'' colour_transparent)) \<and>
         lookup s' ''/home/doc.pdf'' = lookup home ''/home/doc.pdf'')"
proof -
  let ?pages = "[plain, colour_transparent]"
  have "lookup home ''/home/doc.pdf'' = Some (File (Pdf_file ?pages))"
    by (simp add: lookup_def home_def)
  then have pdf: "lookup home (os_path_abspath home ''doc.pdf'') = Some (File (Pdf_file ?pages))"
    by simp
  have bound: "convert_from_path_bound home" and poppler: "poppler_found home None"
    by (simp_all add: home_def)
  have d: "''/home/pages'' = os_path_abspath home ''pages''"
    by simp
  have out: "os_path_isdir home ''/home/pages'' \<or> fst (os_makedirs home ''/home/pages'') = Inr ()"
    using home_pages_creatable by simp
  have free: "\<forall>i < length ?pages. \<not> os_path_isdir home (page_path ''/home/pages'' (1 + int i))"
  proof (intro allI impI)
    fix i assume "i < length ?pages"
    then have "i = 0 \<or> i = 1"
      by auto
    then show "\<not> os_path_isdir home (page_path ''/home/pages'' (1 + int i))"
      using home_pages_free by (auto simp: page_path_home_1 page_path_home_2)
  qed
  from convert_pdf_to_images_writes_pages
    [OF pdf bound poppler d home_pages_creatable(1) out free]
  obtain s' where
    run: "convert_pdf_to_images home ''doc.pdf'' None ''pages'' = (Inr (int (length ?pages)), s')"
    and got: "\<forall>i < length ?pages.
                lookup s' (page_path ''/home/pages'' (1 + int i))
                  = Some (File (Image_file ''PNG'' (?pages ! i)))"
    and others: "\<forall>p. (\<forall>i < length ?pages. p \<noteq> page_path ''/home/pages'' (1 + int i)) \<longrightarrow>
                    lookup s' p = lookup home p \<or>
                    (lookup home p = None \<and> lookup s' p = Some Dir)"
    by blast
  have p1: "lookup s' ''/home/pages/page_1.png'' = Some (File (Image_file ''PNG'' plain))"
    using got [rule_format, of 0] by (simp add: page_path_home_1)
  have p2: "lookup s' ''/home/pages/page_2.png''
            = Some (File (Image_file ''PNG'' colour_transparent))"
    using got [rule_format, of 1] by (simp add: page_path_home_2)
  have "\<forall>i < length ?pages. ''/home/doc.pdf'' \<noteq> page_path ''/home/pages'' (1 + int i)"
  proof (intro allI impI)
    fix i assume "i < length ?pages"
    then have "i = 0 \<or> i = 1"
      by auto
    then show "''/home/doc.pdf'' \<noteq> page_path ''/home/pages'' (1 + int i)"
      by (auto simp: page_path_home_1 page_path_home_2)
  qed
  with others have "lookup s' ''/home/doc.pdf'' = lookup home ''/home/doc.pdf'' \<or>
                    (lookup home ''/home/doc.pdf'' = None \<and> lookup s' ''/home/doc.pdf'' = Some Dir)"
    by blast
  moreover have "lookup home ''/home/doc.pdf'' \<noteq> None"
    using pdf by simp
  ultimately have keep: "lookup s' ''/home/doc.pdf'' = lookup home ''/home/doc.pdf''"
    by blast
  from run p1 p2 keep pdf home_pages_creatable(1) show ?thesis
    by simp
qed

text \<open>
  C5. Directory mode is file-list mode on the sorted full paths of the matching entries:
  for every state, directory, output path and extension list, \<open>images_to_pdf\<close> returns
  the same value and leaves the same file system as \<open>images_to_pdf_from_files\<close> called
  with the lexically sorted full paths of the selected entries.
\<close>

theorem directory_mode_is_file_list_mode_on_sorted_paths:
  "images_to_pdf s images_dir output_pdf exts =
   images_to_pdf_from_files s (sorted_paths s images_dir exts) output_pdf"
  by (simp add: images_to_pdf_unfold images_to_pdf_from_files_def sorted_paths_def)

text \<open>
  C6. With no input, either combiner raises \<open>FileNotFoundError\<close> and leaves the file
  system as it was: directory mode when no entry of the directory matches the extensions,
  file-list mode on the empty list. No output file is written and no directory created.
\<close>

theorem combiners_no_input:
  assumes "matching_entries s images_dir exts = []"
  shows "images_to_pdf s images_dir output_pdf exts = (Inl FileNotFoundError, s) \<and>
         images_to_pdf_from_files s [] output_pdf' = (Inl FileNotFoundError, s)"
  using assms by (simp add: images_to_pdf_unfold images_to_pdf_from_files_def)

theorem combiners_no_input_witness:
  "matching_entries home ''in'' [''.bmp''] = [] \<and>
   images_to_pdf home ''in'' ''out/all.pdf'' [''.bmp''] = (Inl FileNotFoundError, home) \<and>
   images_to_pdf_from_files home [] ''out/all.pdf'' = (Inl FileNotFoundError, home)"
  using combiners_no_input [OF select_home_bmp, of "''out/all.pdf''" "''out/all.pdf''"]
    select_home_bmp by simp

text \<open>
  C7. When the PDF path names no existing file, \<open>convert_pdf_to_images\<close> raises
  \<open>FileNotFoundError\<close> and the file system is unchanged: the output directory is not
  created and nothing is written.
\<close>

theorem convert_pdf_to_images_missing_pdf:
  assumes "\<not> os_path_isfile s (os_path_abspath s pdf_path)"
  shows "convert_pdf_to_images s pdf_path poppler_path output_dir = (Inl FileNotFoundError, s)"
  using assms by (simp add: convert_pdf_to_images_def)

theorem convert_pdf_to_images_missing_pdf_witness:
  "\<not> os_path_isfile home (os_path_abspath home ''missing.pdf'') \<and>
   convert_pdf_to_images home ''missing.pdf'' None ''pages'' = (Inl FileNotFoundError, home)"
proof -
  have h: "\<not> os_path_isfile home (os_path_abspath home ''missing.pdf'')"
    by (simp add: os_path_isfile_def os_path_abspath_def lookup_def home_def)
  show ?thesis
    using h convert_pdf_to_images_missing_pdf [OF h, of None "''pages''"] by simp
qed

text \<open>
  C8, as amended. Directory-mode selection picks exactly the entries whose lower-cased
  name ends with one of the extensions as they are supplied: the case of the file name is
  ignored, the extension is compared as given. When every supplied extension is lower
  case (as in the list \<open>.png\<close>, \<open>.jpg\<close>, \<open>.jpeg\<close> of the GUI), this is the suffix match
  that ignores case on both sides.
\<close>

theorem select_files_ignores_name_case:
  "select_files names exts = filter (\<lambda>f. \<exists>e \<in> set exts. endswith1 (lower f) e) names \<and>
   ((\<forall>e \<in> set exts. lower e = e) \<longrightarrow>
      select_files names exts = filter (\<lambda>f. ci_endswith f exts) names)"
proof -
  have a: "select_files names exts = filter (\<lambda>f. \<exists>e \<in> set exts. endswith1 (lower f) e) names"
    by (simp add: select_files_def endswith_def list_ex_iff)
  have "(\<forall>e \<in> set exts. lower e = e) \<Longrightarrow>
        (\<lambda>f. \<exists>e \<in> set exts. endswith1 (lower f) e) = (\<lambda>f. ci_endswith f exts)"
    by (auto simp: ci_endswith_def list_ex_iff fun_eq_iff)
  with a show ?thesis
    by simp
qed

theorem select_files_ignores_name_case_witness:
  "lower ''.png'' = ''.png'' \<and> lower ''.jpg'' = ''.jpg'' \<and> lower ''.jpeg'' = ''.jpeg'' \<and>
   select_files [''b.PNG'', ''a.png'', ''notes.txt'', ''sub.jpg''] [''.png'', ''.jpg'', ''.jpeg'']
     = filter (\<lambda>f. ci_endswith f [''.png'', ''.jpg'', ''.jpeg''])
         [''b.PNG'', ''a.png'', ''notes.txt'', ''sub.jpg'']"
proof -
  have h: "lower ''.png'' = ''.png''" "lower ''.jpg'' = ''.jpg''" "lower ''.jpeg'' = ''.jpeg''"
    by code_simp+
  then have lc: "\<forall>e \<in> set [''.png'', ''.jpg'', ''.jpeg'']. lower e = e"
    by simp
  have "select_files [''b.PNG'', ''a.png'', ''notes.txt'', ''sub.jpg''] [''.png'', ''.jpg'', ''.jpeg'']
        = filter (\<lambda>f. ci_endswith f [''.png'', ''.jpg'', ''.jpeg''])
            [''b.PNG'', ''a.png'', ''notes.txt'', ''sub.jpg'']"
    using lc select_files_ignores_name_case
      [of "[''b.PNG'', ''a.png'', ''notes.txt'', ''sub.jpg'']" "[''.png'', ''.jpg'', ''.jpeg'']"]
    by blast
  with h show ?thesis
    by (intro conjI)
qed

text \<open>
  C8, as claimed, says that the match ignores the case of the supplied extension too. It
  does not: line 58 lower-cases the file name only. With the extension \<open>.PNG\<close> the entry
  \<open>b.PNG\<close> ends with it when case is ignored, yet it is not selected, and the call finds
  no image.
\<close>

theorem select_files_extension_case_counterexample:
  "ci_endswith ''b.PNG'' [''.PNG''] \<and>
   ''b.PNG'' \<notin> set (select_files [''b.PNG'', ''a.png'', ''notes.txt'', ''sub.jpg''] [''.PNG'']) \<and>
   fst (images_to_pdf home ''in'' ''out/all.pdf'' [''.PNG'']) = Inl FileNotFoundError"
  by code_simp

text \<open>
  C9. Both combiners decode every input before they write: when decoding one of the
  inputs fails (an input of the list, or one of the sorted paths of the selected
  entries), the call ends with the error of a failing input and the file system is
  unchanged, so no output file exists and no output directory was created.
\<close>

theorem decode_failure_writes_nothing:
  "(p \<in> set file_paths \<and> Image_open s p = Inl e0 \<longrightarrow>
      (\<exists>e q. q \<in> set file_paths \<and> Image_open s q = Inl e \<and>
             images_to_pdf_from_files s file_paths output_pdf = (Inl e, s))) \<and>
   (p \<in> set (sorted_paths s images_dir exts) \<and> Image_open s p = Inl e0 \<longrightarrow>
      (\<exists>e q. q \<in> set (sorted_paths s images_dir exts) \<and> Image_open s q = Inl e \<and>
             images_to_pdf s images_dir output_pdf exts = (Inl e, s)))"
  using decode_all_fails_at [of p file_paths s e0]
    decode_all_fails_at [of p "sorted_paths s images_dir exts" s e0]
    images_to_pdf_from_files_decode_error [of s file_paths _ output_pdf]
    images_to_pdf_decode_error [of s images_dir exts _ output_pdf]
  by metis

theorem decode_failure_writes_nothing_witness:
  "(\<exists>e q. q \<in> set [''/home/in/a.png'', ''/home/in/notes.txt''] \<and> Image_open home q = Inl e \<and>
          images_to_pdf_from_files home [''/home/in/a.png'', ''/home/in/notes.txt'']
            ''out/all.pdf'' = (Inl e, home)) \<and>
   (\<exists>e q. q \<in> set (sorted_paths home ''in'' [''.txt'']) \<and> Image_open home q = Inl e \<and>
          images_to_pdf home ''in'' ''out/all.pdf'' [''.txt''] = (Inl e, home))"
  using decode_failure_writes_nothing
    [of "''/home/in/notes.txt''" "[''/home/in/a.png'', ''/home/in/notes.txt'']" home
        UnidentifiedImageError "''out/all.pdf''" "''in''" "[''.txt'']"]
  by (simp add: Image_open_home_notes sorted_paths_home_txt)

text \<open>
  C10. Directory mode selects by name only. An entry of the directory whose lower-cased
  name ends with an accepted extension is selected also when it is a directory; when the
  selected entries sorted before it decode, the call fails decoding it, with
  \<open>IsADirectoryError\<close>, which is not \<open>FileNotFoundError\<close>, and writes nothing. The witness
  is such a directory.
\<close>

theorem images_to_pdf_selects_directory_entry:
  assumes listing: "os_listdir s (os_path_abspath s images_dir) = Inr names"
    and listed: "f \<in> set names"
    and suffix: "endswith (lower f) exts"
    and subdir: "os_path_isdir s (os_path_join (os_path_abspath s images_dir) f)"
    and pil: "Image_bound s"
    and earlier: "\<forall>g \<in> set (select_files names exts). g < f \<longrightarrow>
                    (\<exists>im. Image_open s (os_path_join (os_path_abspath s images_dir) g) = Inr im)"
  shows "f \<in> set (select_files names exts) \<and>
         images_to_pdf s images_dir output_pdf exts = (Inl IsADirectoryError, s) \<and>
         IsADirectoryError \<noteq> FileNotFoundError"
proof -
  let ?D = "os_path_abspath s images_dir"
  have sel: "f \<in> set (select_files names exts)"
    using listed suffix by (simp add: select_files_def)
  have m: "matching_entries s images_dir exts = select_files names exts"
    using listing by (simp add: matching_entries_def)
  from sort_split_first [OF sel] obtain pre post
    where sp: "sort (select_files names exts) = pre @ f # post"
      and before: "\<forall>g \<in> set pre. g \<in> set (select_files names exts) \<and> g < f"
    by blast
  have "\<And>p. p \<in> set (map (os_path_join ?D) pre) \<Longrightarrow> \<exists>im. Image_open s p = Inr im"
    using before earlier by auto
  then obtain ims where "decode_all s (map (os_path_join ?D) pre) = Inr ims"
    using decode_all_succeeds by blast
  then have "decode_all s (map (os_path_join ?D) pre @ os_path_join ?D f # map (os_path_join ?D) post)
             = Inl IsADirectoryError"
    using Image_open_Dir [OF pil subdir] by (rule decode_all_append_fail)
  then have "decode_all s (sorted_paths s images_dir exts) = Inl IsADirectoryError"
    by (simp add: sorted_paths_def m sp)
  then have "images_to_pdf s images_dir output_pdf exts = (Inl IsADirectoryError, s)"
    by (rule images_to_pdf_decode_error)
  with sel show ?thesis by simp
qed

theorem images_to_pdf_selects_directory_entry_witness:
  "os_path_isdir home ''/home/in/sub.jpg'' \<and>
   ''sub.jpg'' \<in> set (select_files [''b.PNG'', ''a.png'', ''notes.txt'', ''sub.jpg''] [''.png'', ''.jpg'']) \<and>
   images_to_pdf home ''in'' ''out/all.pdf'' [''.png'', ''.jpg''] = (Inl IsADirectoryError, home) \<and>
   IsADirectoryError \<noteq> FileNotFoundError"
proof -
  have D: "os_path_abspath home ''in'' = ''/home/in''"
    by simp
  have listing: "os_listdir home (os_path_abspath home ''in'')
                 = Inr [''b.PNG'', ''a.png'', ''notes.txt'', ''sub.jpg'']"
    unfolding D by (rule listdir_home_in)
  have listed: "''sub.jpg'' \<in> set [''b.PNG'', ''a.png'', ''notes.txt'', ''sub.jpg'']"
    by simp
  have suffix: "endswith (lower ''sub.jpg'') [''.png'', ''.jpg'']"
    by code_simp
  have subdir: "os_path_isdir home (os_path_join (os_path_abspath home ''in'') ''sub.jpg'')"
    unfolding D by code_simp
  have pil: "Image_bound home"
    by (simp add: home_def)
  have earlier: "\<forall>g \<in> set (select_files [''b.PNG'', ''a.png'', ''notes.txt'', ''sub.jpg'']
                                 [''.png'', ''.jpg'']).
                   g < ''sub.jpg'' \<longrightarrow>
                   (\<exists>im. Image_open home (os_path_join (os_path_abspath home ''in'') g) = Inr im)"
    unfolding D select_home_png_jpg
    by (simp add: os_path_join_def Image_open_home_a Image_open_home_b)
  have dir: "os_path_isdir home ''/home/in/sub.jpg''"
    by code_simp
  show ?thesis
    using dir images_to_pdf_selects_directory_entry
      [OF listing listed suffix subdir pil earlier, of "''out/all.pdf''"]
    by simp
qed

end
